theory Spec2Isabelle
  imports Complex_Main "HOL-Library.Word"
begin

section \<open>FPS Keys Trainer: the statistics store\<close>

text \<open>
  The embedding follows \<^verbatim>\<open>src/fpsKbdTrainer.js\<close>. JavaScript numbers are modelled
  exactly: counters (\<^verbatim>\<open>attempts\<close>, \<^verbatim>\<open>successes\<close>, \<^verbatim>\<open>errors\<close>, \<^verbatim>\<open>gamesPlayed\<close>,
  \<^verbatim>\<open>round\<close>) are natural numbers, since they start at 0 and are only ever incremented;
  time stamps and reaction times are integers (a difference of two \<^verbatim>\<open>Date.now()\<close>
  readings); quotients and the random draw are rationals. The rounding error of IEEE
  doubles is therefore not part of the model.
\<close>

text \<open>
  A property of a JavaScript object that may be absent (\<^verbatim>\<open>undefined\<close>), \<^verbatim>\<open>null\<close> or a
  value: \<^verbatim>\<open>bestTime\<close> and \<^verbatim>\<open>worstTime\<close> are distinguished this way at lines 36-37.
\<close>

datatype 'a js_field = Undefined | Null | Val 'a

record key_stat =
  attempts :: nat
  successes :: nat
  totalTime :: int
  errors :: nat
  bestTime :: "int js_field"
  worstTime :: "int js_field"

text \<open>
  The object \<^verbatim>\<open>stats\<close> after initialisation: \<^verbatim>\<open>stats.meta.gamesPlayed\<close> and one
  entry per property name. Reading \<^verbatim>\<open>stats[key]\<close> for an absent name gives
  \<^verbatim>\<open>undefined\<close>, here \<open>None\<close>.
\<close>

record stats_store =
  gamesPlayed :: nat
  perKey :: "string \<Rightarrow> key_stat option"

text \<open>Line 31: the list of keys to track.\<close>

definition keys :: "string list" where
  "keys = [''q'', ''e'', ''r'', ''t'', ''f'', ''g'', ''c'', ''x'', ''z'']"

text \<open>Line 34: the record a key starts with.\<close>

definition fresh_stat :: key_stat where
  "fresh_stat = \<lparr>attempts = 0, successes = 0, totalTime = 0, errors = 0,
                  bestTime = Null, worstTime = Null\<rparr>"

subsection \<open>Selection weights (lines 224-240)\<close>

text \<open>
  The body of \<^verbatim>\<open>getKeyWeight\<close> once \<^verbatim>\<open>s = stats[key]\<close> has been read.
\<close>

definition statWeight :: "key_stat \<Rightarrow> rat" where
  "statWeight s =
     (let avgTime = (if successes s > 0 then of_int (totalTime s) / of_nat (successes s) else 500);
          errorPenalty = of_nat (errors s) * 100
      in avgTime + errorPenalty + 100)"

text \<open>
  \<^verbatim>\<open>getKeyWeight(key)\<close>; \<open>None\<close> is the \<^verbatim>\<open>TypeError\<close> of reading \<^verbatim>\<open>s.successes\<close>
  when \<^verbatim>\<open>stats[key]\<close> is \<^verbatim>\<open>undefined\<close>.
\<close>

definition getKeyWeight :: "stats_store \<Rightarrow> string \<Rightarrow> rat option" where
  "getKeyWeight st key = map_option statWeight (perKey st key)"

text \<open>
  Line 232: \<^verbatim>\<open>keys.map(key => getKeyWeight(key))\<close>; the first key without a record
  raises.
\<close>

definition weights :: "stats_store \<Rightarrow> rat list option" where
  "weights st = those (map (getKeyWeight st) keys)"

text \<open>
  Lines 235-238: the loop over \<open>i\<close>, reading \<^verbatim>\<open>keys[i]\<close> and \<^verbatim>\<open>weights[i]\<close> side by
  side. \<open>None\<close> means the loop ran to its end without returning.
\<close>

fun walk :: "rat \<Rightarrow> (string \<times> rat) list \<Rightarrow> string option" where
  "walk rnd [] = None"
| "walk rnd ((k, w) # rest) =
     (let rnd' = rnd - w in if rnd' \<le> 0 then Some k else walk rnd' rest)"

text \<open>
  \<^verbatim>\<open>chooseNextKey()\<close>, with the value \<open>u\<close> returned by \<^verbatim>\<open>Math.random()\<close> as an
  argument. Line 239 is the fallback to the last key.
\<close>

definition chooseNextKey :: "stats_store \<Rightarrow> rat \<Rightarrow> string option" where
  "chooseNextKey st u =
     (case weights st of
        None \<Rightarrow> None
      | Some ws \<Rightarrow>
          (let totalWeight = foldl (\<lambda>sum w. sum + w) 0 ws;
               rnd = u * totalWeight
           in Some (case walk rnd (zip keys ws) of
                      Some k \<Rightarrow> k
                    | None \<Rightarrow> keys ! (length keys - 1))))"

subsection \<open>Persistence (lines 15-39 and 216-222)\<close>

text \<open>
  What \<^verbatim>\<open>JSON.parse\<close> yields for a well-shaped \<^verbatim>\<open>stats.json\<close>: an object whose
  \<^verbatim>\<open>meta\<close>, when present, carries \<^verbatim>\<open>gamesPlayed\<close>, and whose other properties are
  per-key records with numeric counters. Files that parse to anything else are outside
  the model. \<^verbatim>\<open>JSON.stringify\<close> and \<^verbatim>\<open>JSON.parse\<close> are the platform's and are taken
  to be inverse on such objects, so the file content is kept in parsed form.
\<close>

record persisted =
  p_meta :: "nat option"
  p_entries :: "string \<Rightarrow> key_stat option"

datatype file_state = Missing | Unparseable | Parsed persisted

text \<open>Lines 18-25: \<^verbatim>\<open>stats\<close> stays \<^verbatim>\<open>{}\<close> when the file is absent or does not parse.\<close>

definition read_stats :: "file_state \<Rightarrow> persisted" where
  "read_stats f =
     (case f of
        Missing \<Rightarrow> \<lparr>p_meta = None, p_entries = (\<lambda>_. None)\<rparr>
      | Unparseable \<Rightarrow> \<lparr>p_meta = None, p_entries = (\<lambda>_. None)\<rparr>
      | Parsed p \<Rightarrow> p)"

text \<open>Lines 33-38: the body of the \<^verbatim>\<open>forEach\<close> for one key.\<close>

definition init_key :: "key_stat option \<Rightarrow> key_stat" where
  "init_key e =
     (case e of
        None \<Rightarrow> fresh_stat
      | Some s \<Rightarrow>
          s\<lparr>bestTime := (if bestTime s = Undefined then Null else bestTime s),
            worstTime := (if worstTime s = Undefined then Null else worstTime s)\<rparr>)"

text \<open>Lines 18-39 as a whole: the store the program starts with.\<close>

definition load_stats :: "file_state \<Rightarrow> stats_store" where
  "load_stats f =
     (let p = read_stats f
      in \<lparr>gamesPlayed = (case p_meta p of None \<Rightarrow> 0 | Some g \<Rightarrow> g),
          perKey = fold (\<lambda>key m. m(key \<mapsto> init_key (m key))) keys (p_entries p)\<rparr>)"

text \<open>
  \<^verbatim>\<open>saveStats()\<close>. \<^verbatim>\<open>writeFileSync\<close> either succeeds or throws; the exception is
  caught and logged, and the file is then whatever the failed write left behind.
\<close>

datatype write_outcome = WriteOk | WriteFails file_state

definition saveStats :: "write_outcome \<Rightarrow> stats_store \<Rightarrow> file_state" where
  "saveStats w st =
     (case w of
        WriteOk \<Rightarrow> Parsed \<lparr>p_meta = Some (gamesPlayed st), p_entries = perKey st\<rparr>
      | WriteFails f \<Rightarrow> f)"

subsection \<open>Number formatting\<close>

text \<open>The decimal digits of a natural number, as \<^verbatim>\<open>String(n)\<close> writes them.\<close>

function show_nat :: "nat \<Rightarrow> string" where
  "show_nat n =
     (if n < 10 then [''0123456789'' ! n]
      else show_nat (n div 10) @ [''0123456789'' ! (n mod 10)])"
  by pat_completeness auto
termination
  by (relation "measure id") auto

declare show_nat.simps [simp del]

text \<open>
  \<^verbatim>\<open>x.toFixed(1)\<close> (ECMA-262, Number.prototype.toFixed): a sign for negative \<open>x\<close>, then
  the integer \<open>n\<close> closest to ten times the magnitude, the larger one on a tie, written
  with one digit after the point. The switch to exponent notation from \<open>10\<^sup>2\<^sup>1\<close> on is
  not modelled.
\<close>

definition fixed1 :: "nat \<Rightarrow> string" where
  "fixed1 n = show_nat (n div 10) @ ''.'' @ show_nat (n mod 10)"

definition toFixed1 :: "rat \<Rightarrow> string" where
  "toFixed1 x =
     (if x < 0 then ''-'' @ fixed1 (nat \<lfloor>(- x) * 10 + 1 / 2\<rfloor>)
      else fixed1 (nat \<lfloor>x * 10 + 1 / 2\<rfloor>))"

subsection \<open>Analysis helpers (lines 79-93)\<close>

text \<open>
  Lines 80-85: the loop that adds up attempts and successes; \<open>None\<close> is the
  \<^verbatim>\<open>TypeError\<close> of a key without a record.
\<close>

fun totals :: "stats_store \<Rightarrow> string list \<Rightarrow> nat \<times> nat \<Rightarrow> (nat \<times> nat) option" where
  "totals st [] acc = Some acc"
| "totals st (key # rest) (totalAttempts, totalSuccesses) =
     (case perKey st key of
        None \<Rightarrow> None
      | Some s \<Rightarrow> totals st rest (totalAttempts + attempts s, totalSuccesses + successes s))"

definition getOverallAccuracy :: "stats_store \<Rightarrow> string option" where
  "getOverallAccuracy st =
     (case totals st keys (0, 0) of
        None \<Rightarrow> None
      | Some (totalAttempts, totalSuccesses) \<Rightarrow>
          Some (if totalAttempts > 0
                then toFixed1 ((of_nat totalSuccesses / of_nat totalAttempts) * 100)
                else ''N/A''))"

definition getRollingAvg :: "int list \<Rightarrow> string" where
  "getRollingAvg reactionTimes =
     (if length reactionTimes = 0 then ''N/A''
      else (let sum = foldl (\<lambda>a b. a + b) 0 reactionTimes
            in toFixed1 (of_int sum / of_nat (length reactionTimes))))"

subsection \<open>ANSI-aware helpers (lines 61-76)\<close>

text \<open>
  JavaScript strings are sequences of UTF-16 code units, and \<^verbatim>\<open>length\<close> and
  \<^verbatim>\<open>slice\<close> count code units. The ellipsis U+2026 is one code unit.
\<close>

type_synonym code_unit = "16 word"

definition is_param :: "code_unit \<Rightarrow> bool" where
  "is_param c = ((0x30 \<le> c \<and> c \<le> 0x39) \<or> c = 0x3B)"

text \<open>
  One match of the regular expression of line 62 at the start of \<open>s\<close>: ESC (0x1B),
  an opening bracket (0x5B), any number of digits and semicolons, and \<^verbatim>\<open>m\<close> (0x6D).
  The result is the matched text and what follows it. The class of digits and semicolons
  does not contain \<^verbatim>\<open>m\<close>, so the greedy star has nothing to give back: there is a
  match exactly when the longest run of parameter characters is followed by \<^verbatim>\<open>m\<close>.
\<close>

definition match_sgr :: "code_unit list \<Rightarrow> (code_unit list \<times> code_unit list) option" where
  "match_sgr s =
     (case s of
        a # b # t \<Rightarrow>
          if a = 0x1B \<and> b = 0x5B then
            (case dropWhile is_param t of
               m # r \<Rightarrow> if m = 0x6D then Some (a # b # takeWhile is_param t @ [m], r) else None
             | [] \<Rightarrow> None)
          else None
      | _ \<Rightarrow> None)"

text \<open>
  \<^verbatim>\<open>stripAnsi(str)\<close>, a global \<^verbatim>\<open>replace\<close> by the empty string: scan from the
  left, drop each match and go on after it, keep every other code unit.
\<close>

function stripAnsi :: "code_unit list \<Rightarrow> code_unit list" where
  "stripAnsi [] = []"
| "stripAnsi (c # cs) =
     (case match_sgr (c # cs) of
        Some (m, rest) \<Rightarrow> stripAnsi rest
      | None \<Rightarrow> c # stripAnsi cs)"
  by pat_completeness auto
termination
proof (relation "measure length")
  show "wf (measure length)" by simp
next
  fix c :: code_unit and cs x2 m rest
  assume "match_sgr (c # cs) = Some x2" and "(m, rest) = x2"
  then have "match_sgr (c # cs) = Some (m, rest)" by simp
  then obtain b t where cs: "cs = b # t" and "dropWhile is_param t = 0x6D # rest"
    by (auto simp: match_sgr_def split: list.splits if_splits)
  then have "length rest < length t"
    using length_dropWhile_le [of is_param t] by simp
  with cs show "(rest, c # cs) \<in> measure length" by simp
next
  fix c :: code_unit and cs
  show "(cs, c # cs) \<in> measure length" by simp
qed



definition padAnsi :: "code_unit list \<Rightarrow> int \<Rightarrow> code_unit list" where
  "padAnsi str width =
     (let diff = width - int (length (stripAnsi str))
      in if diff > 0 then str @ replicate (nat diff) 0x20 else str)"





section \<open>The game\<close>

text \<open>
  The module's global state (lines 42-46), the content of \<^verbatim>\<open>stats.json\<close>, the number
  of \<^verbatim>\<open>setTimeout(nextRound, 100)\<close> callbacks waiting to run, and whether
  \<^verbatim>\<open>process.exit()\<close> has been called. What is written to the terminal is not part of
  the state. A log entry keeps the values that the message of line 281 or 284 is
  formatted from.
\<close>

datatype log_entry =
  Correct nat string int
| Oops nat string string int

record game_state =
  stats :: stats_store
  roundN :: nat
  currentKey :: "string option"
  promptTime :: "int option"
  reactionTimes :: "int list"
  resultsLog :: "log_entry list"
  statsFile :: file_state
  pendingTimers :: nat
  exited :: bool

text \<open>
  \<^verbatim>\<open>renderUI()\<close> only writes to the terminal, but it calls \<^verbatim>\<open>getOverallAccuracy\<close> and
  \<^verbatim>\<open>getPerKeySummary\<close>, which read the record of every tracked key: it returns
  normally exactly when they all exist.
\<close>

definition renderUI :: "game_state \<Rightarrow> bool" where
  "renderUI s = (getOverallAccuracy (stats s) \<noteq> None)"

text \<open>
  \<^verbatim>\<open>nextRound()\<close> (lines 243-248), given the values of \<^verbatim>\<open>Math.random()\<close> and
  \<^verbatim>\<open>Date.now()\<close>. \<open>None\<close> is an uncaught exception.
\<close>

definition nextRound :: "rat \<Rightarrow> int \<Rightarrow> game_state \<Rightarrow> game_state option" where
  "nextRound u now s =
     (case chooseNextKey (stats s) u of
        None \<Rightarrow> None
      | Some k \<Rightarrow>
          (let s' = s\<lparr>roundN := roundN s + 1, currentKey := Some k, promptTime := Some now\<rparr>
           in if renderUI s' then Some s' else None))"

text \<open>
  \<^verbatim>\<open>displayFinalStats()\<close> (lines 122-138): one more game played, the store saved,
  the summary printed. The summary calls the same two helpers as \<^verbatim>\<open>renderUI()\<close>, so
  it returns normally under the same condition. The handler calls \<^verbatim>\<open>process.exit()\<close>
  afterwards.
\<close>

definition displayFinalStats :: "write_outcome \<Rightarrow> game_state \<Rightarrow> game_state option" where
  "displayFinalStats w s =
     (let st = (stats s)\<lparr>gamesPlayed := gamesPlayed (stats s) + 1\<rparr>;
          s' = s\<lparr>stats := st, statsFile := saveStats w st\<rparr>
      in if renderUI s' then Some s' else None)"

text \<open>Lines 273-278: best and worst time of the prompted key after a correct press.\<close>

definition updBest :: "int \<Rightarrow> int js_field \<Rightarrow> int js_field" where
  "updBest reactionTime b =
     (case b of
        Null \<Rightarrow> Val reactionTime
      | Val t \<Rightarrow> if reactionTime < t then Val reactionTime else Val t
      | Undefined \<Rightarrow> Undefined)"

definition updWorst :: "int \<Rightarrow> int js_field \<Rightarrow> int js_field" where
  "updWorst reactionTime b =
     (case b of
        Null \<Rightarrow> Val reactionTime
      | Val t \<Rightarrow> if reactionTime > t then Val reactionTime else Val t
      | Undefined \<Rightarrow> Undefined)"

text \<open>Lines 279-280: push, then shift when more than four are held.\<close>

definition pushTime :: "int \<Rightarrow> int list \<Rightarrow> int list" where
  "pushTime reactionTime rts =
     (let rts' = rts @ [reactionTime] in if length rts' > 4 then tl rts' else rts')"

definition ctrl_c :: string where
  "ctrl_c = [CHR 0x03]"

text \<open>
  The \<^verbatim>\<open>keypress\<close> handler (lines 256-292). \<open>str\<close> is the character of the key, which
  \<^verbatim>\<open>readline\<close> leaves \<^verbatim>\<open>undefined\<close> (\<open>None\<close>) for keys that send an escape sequence
  (arrows, function keys); \<open>sq\<close> is \<^verbatim>\<open>key.sequence\<close>, \<open>now\<close> the value of
  \<^verbatim>\<open>Date.now()\<close>, \<open>w\<close> what the write of the statistics file does. The result \<open>None\<close>
  is an uncaught \<^verbatim>\<open>TypeError\<close>: \<^verbatim>\<open>stats[currentKey]\<close> without a record, or
  \<^verbatim>\<open>str.toUpperCase()\<close> on \<^verbatim>\<open>undefined\<close> at line 284.
\<close>

definition keypress ::
  "string option \<Rightarrow> string \<Rightarrow> int \<Rightarrow> write_outcome \<Rightarrow> game_state \<Rightarrow> game_state option" where
  "keypress str sq now w s =
     (if sq = ctrl_c then map_option (\<lambda>s'. s'\<lparr>exited := True\<rparr>) (displayFinalStats w s)
      else (case currentKey s of
              None \<Rightarrow> Some s
            | Some ck \<Rightarrow>
                if ck = [] then Some s
                else (let reactionTime = now - (case promptTime s of None \<Rightarrow> 0 | Some t \<Rightarrow> t)
                      in case perKey (stats s) ck of
                           None \<Rightarrow> None
                         | Some ks0 \<Rightarrow>
                             (let ks1 = ks0\<lparr>attempts := attempts ks0 + 1\<rparr>;
                                  scored =
                                    (if str = Some ck
                                     then Some (ks1\<lparr>successes := successes ks1 + 1,
                                                    totalTime := totalTime ks1 + reactionTime,
                                                    bestTime := updBest reactionTime (bestTime ks1),
                                                    worstTime := updWorst reactionTime (worstTime ks1)\<rparr>,
                                                pushTime reactionTime (reactionTimes s),
                                                Correct (roundN s) ck reactionTime)
                                     else (case str of
                                             None \<Rightarrow> None
                                           | Some c \<Rightarrow>
                                               Some (ks1\<lparr>errors := errors ks1 + 1\<rparr>,
                                                     reactionTimes s,
                                                     Oops (roundN s) c ck reactionTime)))
                              in case scored of
                                   None \<Rightarrow> None
                                 | Some (ks2, rts, resultMessage) \<Rightarrow>
                                     (let st = (stats s)\<lparr>perKey := (perKey (stats s))(ck \<mapsto> ks2)\<rparr>;
                                          s' = s\<lparr>stats := st,
                                                 reactionTimes := rts,
                                                 resultsLog := resultsLog s @ [resultMessage],
                                                 statsFile := saveStats w st,
                                                 currentKey := None\<rparr>
                                      in if renderUI s'
                                         then Some (s'\<lparr>pendingTimers := pendingTimers s' + 1\<rparr>)
                                         else None)))))"

subsection \<open>Runs of the event loop\<close>

text \<open>
  The two kinds of events the program reacts to: a key press, and the expiry of a
  timer set at line 291, which calls \<^verbatim>\<open>nextRound\<close>. A timer can only expire when
  one is pending, and nothing runs after \<^verbatim>\<open>process.exit()\<close>.
\<close>

datatype event =
  KeyPress "string option" string int write_outcome
| Timeout rat int

definition step :: "event \<Rightarrow> game_state \<Rightarrow> game_state option" where
  "step e s =
     (if exited s then Some s
      else (case e of
              KeyPress str sq now w \<Rightarrow> keypress str sq now w s
            | Timeout u now \<Rightarrow>
                if pendingTimers s = 0 then Some s
                else nextRound u now (s\<lparr>pendingTimers := pendingTimers s - 1\<rparr>)))"

fun run :: "event list \<Rightarrow> game_state \<Rightarrow> game_state option" where
  "run [] s = Some s"
| "run (e # es) s = (case step e s of None \<Rightarrow> None | Some s' \<Rightarrow> run es s')"

text \<open>
  The top level of the module: initialisation (lines 18-46), then \<^verbatim>\<open>renderUI()\<close> and
  \<^verbatim>\<open>nextRound()\<close> (lines 295-296).
\<close>

definition startup :: "file_state \<Rightarrow> rat \<Rightarrow> int \<Rightarrow> game_state option" where
  "startup f u now =
     (let s = \<lparr>stats = load_stats f, roundN = 0, currentKey = None, promptTime = None,
                reactionTimes = [], resultsLog = [], statsFile = f, pendingTimers = 0,
                exited = False\<rparr>
      in if renderUI s then nextRound u now s else None)"


subsection \<open>What a run scored\<close>

text \<open>
  For stating properties of whole runs: the press that the handler scores on event \<open>e\<close>
  in state \<open>s\<close>, as the prompted key, whether the pressed character matched it, and the
  reaction time; and the list of these along a run.
\<close>

definition scored_press :: "event \<Rightarrow> game_state \<Rightarrow> (string \<times> bool \<times> int) option" where
  "scored_press e s =
     (case e of
        Timeout u now \<Rightarrow> None
      | KeyPress str sq now w \<Rightarrow>
          if exited s \<or> sq = ctrl_c then None
          else (case currentKey s of
                  None \<Rightarrow> None
                | Some ck \<Rightarrow>
                    if ck = [] then None
                    else Some (ck, str = Some ck,
                               now - (case promptTime s of None \<Rightarrow> 0 | Some t \<Rightarrow> t))))"

fun scored_presses :: "event list \<Rightarrow> game_state \<Rightarrow> (string \<times> bool \<times> int) list" where
  "scored_presses [] s = []"
| "scored_presses (e # es) s =
     (case scored_press e s of None \<Rightarrow> [] | Some p \<Rightarrow> [p])
     @ (case step e s of None \<Rightarrow> [] | Some s' \<Rightarrow> scored_presses es s')"

text \<open>The press scored on a single event, as a list of at most one element.\<close>

definition one_press :: "event \<Rightarrow> game_state \<Rightarrow> (string \<times> bool \<times> int) list" where
  "one_press e s = (case scored_press e s of None \<Rightarrow> [] | Some p \<Rightarrow> [p])"

text \<open>The reaction times of the correct presses, of all keys and of one key.\<close>

definition correct_times :: "(string \<times> bool \<times> int) list \<Rightarrow> int list" where
  "correct_times ps = map (\<lambda>(k, ok, t). t) (filter (\<lambda>(k, ok, t). ok) ps)"

definition correct_times_of :: "string \<Rightarrow> (string \<times> bool \<times> int) list \<Rightarrow> int list" where
  "correct_times_of key ps = map (\<lambda>(k, ok, t). t) (filter (\<lambda>(k, ok, t). ok \<and> k = key) ps)"

text \<open>Every tracked key has a record: what lines 32-39 establish.\<close>

definition tracked :: "stats_store \<Rightarrow> bool" where
  "tracked st = (\<forall>k \<in> set keys. perKey st k \<noteq> None)"

text \<open>The sums that the overall accuracy is stated in: over all tracked keys.\<close>

definition sum_attempts :: "stats_store \<Rightarrow> nat" where
  "sum_attempts st = (\<Sum>k\<leftarrow>keys. case perKey st k of None \<Rightarrow> 0 | Some s \<Rightarrow> attempts s)"

definition sum_successes :: "stats_store \<Rightarrow> nat" where
  "sum_successes st = (\<Sum>k\<leftarrow>keys. case perKey st k of None \<Rightarrow> 0 | Some s \<Rightarrow> successes s)"

text \<open>
  The state right after start-up without a statistics file, when the first draw is 0
  and \<^verbatim>\<open>q\<close> is prompted at time \<open>now\<close>.
\<close>

definition fresh_game :: "int \<Rightarrow> game_state" where
  "fresh_game now =
     \<lparr>stats = load_stats Missing, roundN = 1, currentKey = Some ''q'', promptTime = Some now,
      reactionTimes = [], resultsLog = [], statsFile = Missing, pendingTimers = 0,
      exited = False\<rparr>"

text \<open>
  What lines 32-39 establish in full: every tracked key has a record whose best and
  worst time are \<^verbatim>\<open>null\<close> or a number, never absent.
\<close>

definition store_ok :: "stats_store \<Rightarrow> bool" where
  "store_ok st =
     (\<forall>k \<in> set keys. \<exists>ks. perKey st k = Some ks \<and> bestTime ks \<noteq> Undefined
                           \<and> worstTime ks \<noteq> Undefined)"


text \<open>
  Two runs from \<open>fresh_game 0\<close> in which every draw is 0, so that \<^verbatim>\<open>q\<close> is prompted
  each time, and every press is the correct one: five rounds with reaction times 100,
  200, 300, 400 and 500, and three rounds with reaction times 120, 80 and 200.
\<close>

definition five_rounds :: "event list" where
  "five_rounds =
     [KeyPress (Some ''q'') ''q'' 100 WriteOk, Timeout 0 1000,
      KeyPress (Some ''q'') ''q'' 1200 WriteOk, Timeout 0 2000,
      KeyPress (Some ''q'') ''q'' 2300 WriteOk, Timeout 0 3000,
      KeyPress (Some ''q'') ''q'' 3400 WriteOk, Timeout 0 4000,
      KeyPress (Some ''q'') ''q'' 4500 WriteOk]"

definition three_rounds :: "event list" where
  "three_rounds =
     [KeyPress (Some ''q'') ''q'' 120 WriteOk, Timeout 0 1000,
      KeyPress (Some ''q'') ''q'' 1080 WriteOk, Timeout 0 2000,
      KeyPress (Some ''q'') ''q'' 2200 WriteOk]"

section \<open>Properties\<close>

subsection \<open>The store after loading\<close>

lemma fold_init_key:
  "distinct ks \<Longrightarrow>
   fold (\<lambda>key m. m(key \<mapsto> init_key (m key))) ks m k =
     (if k \<in> set ks then Some (init_key (m k)) else m k)"
  by (induction ks arbitrary: m) auto

lemma distinct_keys: "distinct keys"
  by (simp add: keys_def)

lemma perKey_load_stats:
  "perKey (load_stats f) k =
     (if k \<in> set keys then Some (init_key (p_entries (read_stats f) k))
      else p_entries (read_stats f) k)"
  by (simp add: load_stats_def Let_def fold_init_key [OF distinct_keys])

lemma tracked_load_stats: "tracked (load_stats f)"
  by (simp add: tracked_def perKey_load_stats)

lemma perKey_load_Missing:
  "perKey (load_stats Missing) k = (if k \<in> set keys then Some fresh_stat else None)"
  by (simp add: perKey_load_stats read_stats_def init_key_def)

subsection \<open>Weights\<close>

text \<open>
  C3. For every key that has a statistics record, the weight of the key is its average
  reaction time plus one hundred per error plus one hundred, where the average is
  \<open>totalTime / successes\<close> when there is a success and the neutral 500 otherwise; a
  record with no success and no error weighs 600.
\<close>

theorem getKeyWeight_formula:
  "perKey st key = Some s \<Longrightarrow>
     getKeyWeight st key =
       Some ((if successes s > 0 then of_int (totalTime s) / of_nat (successes s) else 500)
             + of_nat (errors s) * 100 + 100)
     \<and> (successes s = 0 \<and> errors s = 0 \<longrightarrow> getKeyWeight st key = Some 600)"
  by (simp add: getKeyWeight_def statWeight_def)

theorem getKeyWeight_formula_witness:
  "perKey (load_stats Missing) ''q'' = Some fresh_stat
   \<and> successes fresh_stat = 0 \<and> errors fresh_stat = 0
   \<and> getKeyWeight (load_stats Missing) ''q'' = Some 600"
proof -
  have p: "perKey (load_stats Missing) ''q'' = Some fresh_stat"
    by (simp add: perKey_load_Missing keys_def)
  have z: "successes fresh_stat = 0 \<and> errors fresh_stat = 0"
    by (simp add: fresh_stat_def)
  from getKeyWeight_formula [OF p] z p show ?thesis by blast
qed

subsection \<open>Overall accuracy\<close>

lemma totals_tracked:
  "\<forall>k \<in> set ks. perKey st k \<noteq> None \<Longrightarrow>
   totals st ks (a, b) =
     Some (a + (\<Sum>k\<leftarrow>ks. case perKey st k of None \<Rightarrow> 0 | Some s \<Rightarrow> attempts s),
           b + (\<Sum>k\<leftarrow>ks. case perKey st k of None \<Rightarrow> 0 | Some s \<Rightarrow> successes s))"
  by (induction ks arbitrary: a b) auto

lemma totals_keys:
  "tracked st \<Longrightarrow> totals st keys (0, 0) = Some (sum_attempts st, sum_successes st)"
  using totals_tracked [of keys st 0 0]
  by (simp add: tracked_def sum_attempts_def sum_successes_def)






subsection \<open>Choosing the next key\<close>

lemma walk_None_iff:
  "walk r kws = None \<longleftrightarrow> (\<forall>i<length kws. sum_list (map snd (take (Suc i) kws)) < r)"
proof (induction kws arbitrary: r)
  case Nil
  then show ?case by simp
next
  case (Cons kw kws)
  obtain k w where kw: "kw = (k, w)" by (cases kw)
  show ?case
  proof (cases "r - w \<le> 0")
    case True
    then have "\<not> sum_list (map snd (take (Suc 0) (kw # kws))) < r" by (simp add: kw)
    then show ?thesis using True by (auto simp: kw)
  next
    case False
    have "(\<forall>i<length (kw # kws). sum_list (map snd (take (Suc i) (kw # kws))) < r)
          \<longleftrightarrow> (\<forall>i<length kws. sum_list (map snd (take (Suc i) kws)) < r - w)"
      (is "?L \<longleftrightarrow> ?R")
    proof
      assume l: ?L
      show ?R
      proof (intro allI impI)
        fix i assume "i < length kws"
        then have "Suc i < length (kw # kws)" by simp
        with l have "sum_list (map snd (take (Suc (Suc i)) (kw # kws))) < r" by blast
        then show "sum_list (map snd (take (Suc i) kws)) < r - w" by (simp add: kw)
      qed
    next
      assume rr: ?R
      show ?L
      proof (intro allI impI)
        fix i assume i: "i < length (kw # kws)"
        show "sum_list (map snd (take (Suc i) (kw # kws))) < r"
        proof (cases i)
          case 0
          then show ?thesis using False by (simp add: kw)
        next
          case (Suc j)
          with i rr have "sum_list (map snd (take (Suc j) kws)) < r - w" by simp
          then show ?thesis by (simp add: kw Suc)
        qed
      qed
    qed
    with Cons.IH [of "r - w"] False show ?thesis by (simp add: kw)
  qed
qed

lemma walk_Some_least:
  "walk r kws = Some k \<Longrightarrow>
     \<exists>i<length kws. k = fst (kws ! i) \<and> r \<le> sum_list (map snd (take (Suc i) kws))
        \<and> (\<forall>j<i. sum_list (map snd (take (Suc j) kws)) < r)"
proof (induction kws arbitrary: r)
  case Nil
  then show ?case by simp
next
  case (Cons kw kws)
  obtain k0 w where kw: "kw = (k0, w)" by (cases kw)
  show ?case
  proof (cases "r - w \<le> 0")
    case True
    with Cons.prems have "k = k0" by (simp add: kw)
    with True have "0 < length (kw # kws) \<and> k = fst ((kw # kws) ! 0)
        \<and> r \<le> sum_list (map snd (take (Suc 0) (kw # kws)))
        \<and> (\<forall>j<0. sum_list (map snd (take (Suc j) (kw # kws))) < r)"
      by (simp add: kw)
    then show ?thesis by blast
  next
    case False
    with Cons.prems have "walk (r - w) kws = Some k" by (simp add: kw)
    from Cons.IH [OF this] obtain i where i: "i < length kws" "k = fst (kws ! i)"
      "r - w \<le> sum_list (map snd (take (Suc i) kws))"
      "\<forall>j<i. sum_list (map snd (take (Suc j) kws)) < r - w" by blast
    have "\<forall>j<Suc i. sum_list (map snd (take (Suc j) (kw # kws))) < r"
    proof (intro allI impI)
      fix j assume j: "j < Suc i"
      show "sum_list (map snd (take (Suc j) (kw # kws))) < r"
      proof (cases j)
        case 0
        then show ?thesis using False by (simp add: kw)
      next
        case (Suc j')
        with j i(4) have "sum_list (map snd (take (Suc j') kws)) < r - w" by simp
        then show ?thesis by (simp add: kw Suc)
      qed
    qed
    moreover have "Suc i < length (kw # kws)" "k = fst ((kw # kws) ! Suc i)"
      "r \<le> sum_list (map snd (take (Suc (Suc i)) (kw # kws)))"
      using i by (simp_all add: kw)
    ultimately show ?thesis by blast
  qed
qed

lemma foldl_plus_sum_list: "foldl (\<lambda>sum w. sum + w) a ws = a + sum_list (ws :: rat list)"
  by (induction ws arbitrary: a) (simp_all add: add.assoc)

lemma those_map_length: "those (map f xs) = Some ys \<Longrightarrow> length ys = length xs"
  by (induction xs arbitrary: ys) (auto split: option.splits)

lemma weights_length: "weights st = Some ws \<Longrightarrow> length ws = length keys"
  unfolding weights_def by (rule those_map_length)


lemma those_map_Some:
  "\<forall>x \<in> set xs. f x \<noteq> None \<Longrightarrow> \<exists>ys. those (map f xs) = Some ys"
  by (induction xs) (auto split: option.splits)

lemma tracked_weights: "tracked st \<Longrightarrow> \<exists>ws. weights st = Some ws"
  unfolding weights_def tracked_def getKeyWeight_def
  by (rule those_map_Some) simp

lemma map_snd_take_zip:
  "length ks = length ws \<Longrightarrow> map snd (take n (zip ks ws)) = take n ws"
  unfolding take_map [symmetric] by simp

lemma chooseNextKey_walk:
  "weights st = Some ws \<Longrightarrow>
   chooseNextKey st u =
     Some (case walk (u * sum_list ws) (zip keys ws) of Some k \<Rightarrow> k | None \<Rightarrow> last keys)"
proof -
  assume ws: "weights st = Some ws"
  have e: "keys ! (length keys - 1) = last keys"
    by (simp add: keys_def)
  show ?thesis
    unfolding chooseNextKey_def e using ws by (simp add: foldl_plus_sum_list)
qed



lemma sum_list_take_mono:
  "\<forall>w \<in> set ws. (0::rat) \<le> w \<Longrightarrow> a \<le> b \<Longrightarrow> sum_list (take a ws) \<le> sum_list (take b ws)"
proof (induction ws arbitrary: a b)
  case Nil
  then show ?case by simp
next
  case (Cons w ws)
  show ?case
  proof (cases a)
    case 0
    have "\<forall>x \<in> set (take b (w # ws)). 0 \<le> x" using Cons.prems(1) by (meson in_set_takeD)
    then have "0 \<le> sum_list (take b (w # ws))" by (intro sum_list_nonneg) blast
    then show ?thesis using 0 by simp
  next
    case (Suc a')
    then obtain b' where b: "b = Suc b'" "a' \<le> b'" using Cons.prems(2) by (cases b) auto
    with Cons.IH [of a' b'] Cons.prems(1) Suc show ?thesis by simp
  qed
qed

lemma sum_list_take_le:
  assumes "\<forall>w \<in> set ws. (0::rat) \<le> w"
  shows "sum_list (take n ws) \<le> sum_list ws"
proof (cases "n \<le> length ws")
  case True
  from sum_list_take_mono [OF assms True] show ?thesis by simp
next
  case False
  then show ?thesis by simp
qed


lemma tracked_render: "tracked st \<Longrightarrow> getOverallAccuracy st \<noteq> None"
  by (simp add: getOverallAccuracy_def totals_keys)

lemma weights_load_Missing:
  "weights (load_stats Missing) = Some [600, 600, 600, 600, 600, 600, 600, 600, 600]"
  by (simp add: weights_def keys_def getKeyWeight_def perKey_load_Missing statWeight_def
                fresh_stat_def)

lemma startup_Missing: "startup Missing 0 now = Some (fresh_game now)"
  by (simp add: startup_def nextRound_def renderUI_def tracked_render tracked_load_stats
                chooseNextKey_def weights_load_Missing keys_def fresh_game_def)




text \<open>
  C10. Whatever the value \<open>u\<close> of the random source, and so whatever the draw
  \<open>u * sum ws\<close>, \<^verbatim>\<open>chooseNextKey()\<close> returns a member of the tracked key list when every
  tracked key has a record; and when no running remainder is at most 0, it returns the
  last key of the list, \<^verbatim>\<open>z\<close>.
\<close>

theorem chooseNextKey_member:
  "tracked st \<Longrightarrow>
     \<exists>k ws. chooseNextKey st u = Some k \<and> k \<in> set keys \<and> weights st = Some ws
        \<and> ((\<forall>i<length keys. 0 < u * sum_list ws - sum_list (take (Suc i) ws))
              \<longrightarrow> k = last keys \<and> k = ''z'')"
proof -
  assume "tracked st"
  then obtain ws where ws: "weights st = Some ws" using tracked_weights by blast
  have len: "length keys = length ws" using weights_length [OF ws] by simp
  have pre: "sum_list (map snd (take n (zip keys ws))) = sum_list (take n ws)" for n
    by (simp add: map_snd_take_zip [OF len])
  let ?r = "u * sum_list ws"
  let ?k = "case walk ?r (zip keys ws) of Some k \<Rightarrow> k | None \<Rightarrow> last keys"
  have c: "chooseNextKey st u = Some ?k" by (rule chooseNextKey_walk [OF ws])
  have z: "last keys = ''z''" by (simp add: keys_def)
  have mem: "?k \<in> set keys"
  proof (cases "walk ?r (zip keys ws)")
    case None
    then show ?thesis by (simp add: keys_def)
  next
    case (Some k)
    from walk_Some_least [OF Some] len have "k \<in> set keys" by auto
    then show ?thesis using Some by simp
  qed
  have "?k = last keys" if "\<forall>i<length keys. 0 < ?r - sum_list (take (Suc i) ws)"
  proof -
    from that have "\<forall>i<length (zip keys ws). sum_list (map snd (take (Suc i) (zip keys ws))) < ?r"
      unfolding pre using len by simp
    then have "walk ?r (zip keys ws) = None" by (simp only: walk_None_iff)
    then show ?thesis by simp
  qed
  with c mem ws z show ?thesis by auto
qed



theorem chooseNextKey_member_witness:
  "tracked (load_stats Missing) \<and> chooseNextKey (load_stats Missing) 2 = Some ''z''
   \<and> ''z'' \<in> set keys"
proof -
  define ws0 :: "rat list" where "ws0 = [600, 600, 600, 600, 600, 600, 600, 600, 600]"
  from chooseNextKey_member [OF tracked_load_stats, of Missing 2] obtain k ws where
    k: "chooseNextKey (load_stats Missing) 2 = Some k" "k \<in> set keys"
       "weights (load_stats Missing) = Some ws"
       "(\<forall>i<length keys. 0 < 2 * sum_list ws - sum_list (take (Suc i) ws)) \<longrightarrow> k = ''z''"
    by blast
  from k(3) have ws: "ws = ws0" by (simp add: weights_load_Missing ws0_def)
  have le: "sum_list (take n ws0) \<le> sum_list ws0" for n
    by (rule sum_list_take_le) (simp add: ws0_def)
  have tot: "sum_list ws0 = 5400" by (simp add: ws0_def)
  have "\<forall>i<length keys. 0 < 2 * sum_list ws0 - sum_list (take (Suc i) ws0)"
  proof (intro allI impI)
    fix i
    show "0 < 2 * sum_list ws0 - sum_list (take (Suc i) ws0)"
      using le [of "Suc i"] tot by linarith
  qed
  with k(4) ws have "k = ''z''" by blast
  with k(1,2) tracked_load_stats show ?thesis by blast
qed

subsection \<open>The key-press handler\<close>

lemma tracked_upd: "tracked st \<Longrightarrow> tracked (st\<lparr>perKey := (perKey st)(k \<mapsto> x)\<rparr>)"
  by (simp add: tracked_def)

text \<open>
  C2. When no key is prompted (\<^verbatim>\<open>currentKey\<close> is \<^verbatim>\<open>null\<close>) and the key pressed is not
  the interrupt, the handler returns the state it was given: statistics, meta counter,
  rolling window, log, file, round, pending timers all stay as they are. The same holds
  for the event loop's step on that key press.
\<close>

theorem keypress_idle_noop:
  "currentKey s = None \<Longrightarrow> sq \<noteq> ctrl_c \<Longrightarrow>
     keypress str sq now w s = Some s \<and> step (KeyPress str sq now w) s = Some s"
  by (simp add: keypress_def step_def)


theorem keypress_idle_noop_witness:
  "currentKey ((fresh_game 0)\<lparr>currentKey := None\<rparr>) = None \<and> ''q'' \<noteq> ctrl_c
   \<and> keypress (Some ''q'') ''q'' 250 WriteOk ((fresh_game 0)\<lparr>currentKey := None\<rparr>)
       = Some ((fresh_game 0)\<lparr>currentKey := None\<rparr>)"
proof -
  have c: "currentKey ((fresh_game 0)\<lparr>currentKey := None\<rparr>) = None" by simp
  have q: "''q'' \<noteq> ctrl_c" by (simp add: ctrl_c_def)
  from keypress_idle_noop [OF c q] c q show ?thesis by blast
qed

text \<open>
  C5. When a key \<open>ck\<close> is prompted and has the record \<open>ks\<close>, and a character other than
  \<open>ck\<close> is pressed, the handler adds one to the attempts and to the errors of \<open>ck\<close> and
  leaves its successes, time total, best and worst time as they were; the record of
  every other key, the pressed one included, is untouched.
\<close>

theorem keypress_incorrect:
  "tracked (stats s) \<Longrightarrow> currentKey s = Some ck \<Longrightarrow> ck \<noteq> [] \<Longrightarrow>
   perKey (stats s) ck = Some ks \<Longrightarrow> sq \<noteq> ctrl_c \<Longrightarrow> c \<noteq> ck \<Longrightarrow>
     \<exists>s' ks'. keypress (Some c) sq now w s = Some s'
        \<and> perKey (stats s') ck = Some ks'
        \<and> attempts ks' = attempts ks + 1 \<and> errors ks' = errors ks + 1
        \<and> successes ks' = successes ks \<and> totalTime ks' = totalTime ks
        \<and> bestTime ks' = bestTime ks \<and> worstTime ks' = worstTime ks
        \<and> perKey (stats s') c = perKey (stats s) c
        \<and> (\<forall>k. k \<noteq> ck \<longrightarrow> perKey (stats s') k = perKey (stats s) k)"
  by (simp add: keypress_def renderUI_def Let_def tracked_render tracked_upd)

theorem keypress_incorrect_witness:
  "tracked (stats (fresh_game 0)) \<and> currentKey (fresh_game 0) = Some ''q''
   \<and> perKey (stats (fresh_game 0)) ''q'' = Some fresh_stat \<and> ''e'' \<noteq> ctrl_c
   \<and> (\<exists>s' ks'. keypress (Some ''e'') ''e'' 250 WriteOk (fresh_game 0) = Some s'
         \<and> perKey (stats s') ''q'' = Some ks'
         \<and> attempts ks' = 1 \<and> errors ks' = 1 \<and> successes ks' = 0 \<and> bestTime ks' = Null
         \<and> perKey (stats s') ''e'' = Some fresh_stat)"
proof -
  have t: "tracked (stats (fresh_game 0))" by (simp add: fresh_game_def tracked_load_stats)
  have c: "currentKey (fresh_game 0) = Some ''q''" by (simp add: fresh_game_def)
  have p: "perKey (stats (fresh_game 0)) ''q'' = Some fresh_stat"
    by (simp add: fresh_game_def perKey_load_Missing keys_def)
  have e: "perKey (stats (fresh_game 0)) ''e'' = Some fresh_stat"
    by (simp add: fresh_game_def perKey_load_Missing keys_def)
  have q: "''e'' \<noteq> ctrl_c" by (simp add: ctrl_c_def)
  from keypress_incorrect [OF t c _ p q, of "''e''" 250 WriteOk] t c p q e
  show ?thesis by (auto simp: fresh_stat_def)
qed

subsection \<open>What every reachable state satisfies\<close>

lemma store_ok_tracked: "store_ok st \<Longrightarrow> tracked st"
  by (auto simp: store_ok_def tracked_def)







lemma keypress_active:
  assumes "keypress str sq now w s = Some s'" and "sq \<noteq> ctrl_c"
    and "currentKey s = Some ck" and "ck \<noteq> []"
  shows "\<exists>ks0. perKey (stats s) ck = Some ks0 \<and>
           (let reactionTime = now - (case promptTime s of None \<Rightarrow> 0 | Some t \<Rightarrow> t)
            in if str = Some ck
               then perKey (stats s') = (perKey (stats s))
                      (ck \<mapsto> ks0\<lparr>attempts := attempts ks0 + 1,
                                 successes := successes ks0 + 1,
                                 totalTime := totalTime ks0 + reactionTime,
                                 bestTime := updBest reactionTime (bestTime ks0),
                                 worstTime := updWorst reactionTime (worstTime ks0)\<rparr>)
                  \<and> reactionTimes s' = pushTime reactionTime (reactionTimes s)
               else perKey (stats s') = (perKey (stats s))
                      (ck \<mapsto> ks0\<lparr>attempts := attempts ks0 + 1, errors := errors ks0 + 1\<rparr>)
                  \<and> reactionTimes s' = reactionTimes s)"
proof -
  from assms obtain ks0 where ks0: "perKey (stats s) ck = Some ks0"
    by (auto simp: keypress_def Let_def split: option.splits)
  show ?thesis
  proof (cases "str = Some ck")
    case True
    with assms ks0 show ?thesis
      by (auto simp: keypress_def Let_def split: if_splits)
  next
    case False
    with assms ks0 show ?thesis
      by (cases str) (auto simp: keypress_def Let_def split: if_splits)
  qed
qed






subsection \<open>Saving and loading\<close>







subsection \<open>Runs: the rolling window and the best and worst times\<close>

lemma correct_times_append: "correct_times (ps @ qs) = correct_times ps @ correct_times qs"
  by (simp add: correct_times_def)

lemma correct_times_of_append:
  "correct_times_of k (ps @ qs) = correct_times_of k ps @ correct_times_of k qs"
  by (simp add: correct_times_of_def)

lemma nextRound_frame:
  "nextRound u now s = Some s' \<Longrightarrow> stats s' = stats s \<and> reactionTimes s' = reactionTimes s"
  by (auto simp: nextRound_def Let_def split: option.splits if_splits)

lemma displayFinalStats_frame:
  "displayFinalStats w s = Some s' \<Longrightarrow>
     perKey (stats s') = perKey (stats s) \<and> reactionTimes s' = reactionTimes s"
  by (auto simp: displayFinalStats_def Let_def split: if_splits)

lemma step_effect:
  assumes "step e s = Some s'"
  shows "reactionTimes s' = fold pushTime (correct_times (one_press e s)) (reactionTimes s)
       \<and> (\<forall>k ks. perKey (stats s) k = Some ks \<longrightarrow>
            (\<exists>ks'. perKey (stats s') k = Some ks'
               \<and> bestTime ks' = fold updBest (correct_times_of k (one_press e s)) (bestTime ks)
               \<and> worstTime ks' = fold updWorst (correct_times_of k (one_press e s)) (worstTime ks)))"
proof (cases "exited s")
  case True
  with assms have "s' = s" by (simp add: step_def)
  moreover have "one_press e s = []"
    using True by (cases e) (simp_all add: one_press_def scored_press_def)
  ultimately show ?thesis by (simp add: correct_times_def correct_times_of_def)
next
  case ne: False
  show ?thesis
  proof (cases e)
    case (Timeout u now)
    have o: "one_press e s = []" by (simp add: Timeout one_press_def scored_press_def)
    from assms ne Timeout have "stats s' = stats s \<and> reactionTimes s' = reactionTimes s"
      by (auto simp: step_def split: if_splits dest!: nextRound_frame)
    then show ?thesis by (simp add: o correct_times_def correct_times_of_def)
  next
    case (KeyPress str sq now w)
    with assms ne have kp: "keypress str sq now w s = Some s'" by (simp add: step_def)
    show ?thesis
    proof (cases "sq = ctrl_c")
      case True
      have o: "one_press e s = []" by (simp add: KeyPress True one_press_def scored_press_def)
      from kp True obtain s'' where "displayFinalStats w s = Some s''" "s' = s''\<lparr>exited := True\<rparr>"
        by (auto simp: keypress_def)
      then have "perKey (stats s') = perKey (stats s) \<and> reactionTimes s' = reactionTimes s"
        using displayFinalStats_frame by simp
      then show ?thesis by (simp add: o correct_times_def correct_times_of_def)
    next
      case nc: False
      show ?thesis
      proof (cases "currentKey s")
        case None
        then have o: "one_press e s = []"
          by (simp add: KeyPress one_press_def scored_press_def)
        from kp nc None have "s' = s" by (simp add: keypress_def)
        then show ?thesis by (simp add: o correct_times_def correct_times_of_def)
      next
        case (Some ck)
        show ?thesis
        proof (cases "ck = []")
          case True
          then have o: "one_press e s = []"
            by (simp add: KeyPress Some one_press_def scored_press_def)
          from kp nc Some True have "s' = s" by (simp add: keypress_def)
          then show ?thesis by (simp add: o correct_times_def correct_times_of_def)
        next
          case nck: False
          define rt where "rt = now - (case promptTime s of None \<Rightarrow> 0 | Some t \<Rightarrow> t)"
          have o: "one_press e s = [(ck, str = Some ck, rt)]"
            using ne nc nck by (simp add: KeyPress Some one_press_def scored_press_def rt_def)
          from keypress_active [OF kp nc Some nck] obtain ks0 where
            ks0: "perKey (stats s) ck = Some ks0"
            and p: "if str = Some ck
               then perKey (stats s') = (perKey (stats s))
                      (ck \<mapsto> ks0\<lparr>attempts := attempts ks0 + 1,
                                 successes := successes ks0 + 1,
                                 totalTime := totalTime ks0 + rt,
                                 bestTime := updBest rt (bestTime ks0),
                                 worstTime := updWorst rt (worstTime ks0)\<rparr>)
                  \<and> reactionTimes s' = pushTime rt (reactionTimes s)
               else perKey (stats s') = (perKey (stats s))
                      (ck \<mapsto> ks0\<lparr>attempts := attempts ks0 + 1, errors := errors ks0 + 1\<rparr>)
                  \<and> reactionTimes s' = reactionTimes s"
            unfolding Let_def rt_def by (metis (no_types, lifting))
          show ?thesis
          proof (cases "str = Some ck")
            case True
            with p ks0 show ?thesis
              by (auto simp: o correct_times_def correct_times_of_def)
          next
            case False
            with p ks0 show ?thesis
              by (auto simp: o correct_times_def correct_times_of_def)
          qed
        qed
      qed
    qed
  qed
qed

lemma scored_presses_Cons:
  "step e s = Some s' \<Longrightarrow> scored_presses (e # es) s = one_press e s @ scored_presses es s'"
  by (simp add: one_press_def)

lemma run_effect:
  "run evs s = Some s' \<Longrightarrow>
     reactionTimes s' = fold pushTime (correct_times (scored_presses evs s)) (reactionTimes s)
   \<and> (\<forall>k ks. perKey (stats s) k = Some ks \<longrightarrow>
        (\<exists>ks'. perKey (stats s') k = Some ks'
           \<and> bestTime ks' = fold updBest (correct_times_of k (scored_presses evs s)) (bestTime ks)
           \<and> worstTime ks' = fold updWorst (correct_times_of k (scored_presses evs s)) (worstTime ks)))"
proof (induction evs arbitrary: s)
  case Nil
  then show ?case by (simp add: correct_times_def correct_times_of_def)
next
  case (Cons e es)
  from Cons.prems obtain s1 where s1: "step e s = Some s1" "run es s1 = Some s'"
    by (auto split: option.splits)
  note E = step_effect [OF s1(1)]
  note I = Cons.IH [OF s1(2)]
  note sp = scored_presses_Cons [OF s1(1), of es]
  have rt: "reactionTimes s' = fold pushTime (correct_times (scored_presses (e # es) s)) (reactionTimes s)"
    using E I unfolding sp by (simp add: correct_times_append)
  have pk: "\<exists>ks'. perKey (stats s') k = Some ks'
           \<and> bestTime ks' = fold updBest (correct_times_of k (scored_presses (e # es) s)) (bestTime ks)
           \<and> worstTime ks' = fold updWorst (correct_times_of k (scored_presses (e # es) s)) (worstTime ks)"
    if k: "perKey (stats s) k = Some ks" for k ks
  proof -
    from E k obtain ks1 where ks1: "perKey (stats s1) k = Some ks1"
      "bestTime ks1 = fold updBest (correct_times_of k (one_press e s)) (bestTime ks)"
      "worstTime ks1 = fold updWorst (correct_times_of k (one_press e s)) (worstTime ks)"
      by blast
    from I ks1(1) obtain ks' where ks': "perKey (stats s') k = Some ks'"
      "bestTime ks' = fold updBest (correct_times_of k (scored_presses es s1)) (bestTime ks1)"
      "worstTime ks' = fold updWorst (correct_times_of k (scored_presses es s1)) (worstTime ks1)"
      by blast
    show ?thesis using ks' ks1 unfolding sp by (simp add: correct_times_of_append)
  qed
  from rt pk show ?case by blast
qed

lemma length_pushTime: "length xs \<le> 4 \<Longrightarrow> length (pushTime t xs) \<le> 4"
  by (auto simp: pushTime_def Let_def)

lemma pushTime_append_drop:
  assumes "length xs \<le> 4"
  shows "drop (length (pushTime t xs @ ts) - 4) (pushTime t xs @ ts)
         = drop (length (xs @ t # ts) - 4) (xs @ t # ts)"
proof (cases "length xs = 4")
  case True
  then obtain a xs' where xs: "xs = a # xs'" "length xs' = 3" by (cases xs) auto
  then have "pushTime t xs = xs' @ [t]" by (simp add: pushTime_def)
  then show ?thesis using xs by simp
next
  case False
  with assms have "pushTime t xs = xs @ [t]" by (simp add: pushTime_def)
  then show ?thesis by simp
qed

lemma fold_pushTime:
  "length xs \<le> 4 \<Longrightarrow>
     fold pushTime ts xs = drop (length (xs @ ts) - 4) (xs @ ts)
     \<and> length (fold pushTime ts xs) \<le> 4"
proof (induction ts arbitrary: xs)
  case Nil
  then show ?case by simp
next
  case (Cons t ts)
  have l: "length (pushTime t xs) \<le> 4" using Cons.prems by (rule length_pushTime)
  from Cons.IH [OF l] pushTime_append_drop [OF Cons.prems, of t ts]
  show ?case by simp
qed

lemma fold_updBest_Val: "fold updBest ts (Val m) = Val (Min (insert m (set ts)))"
proof (induction ts arbitrary: m)
  case Nil
  then show ?case by simp
next
  case (Cons t ts)
  have "updBest t (Val m) = Val (min m t)" by (simp add: updBest_def min_def)
  moreover have "Min (insert (min m t) (set ts)) = Min (insert m (insert t (set ts)))"
    by (cases "set ts = {}") (simp_all add: min.assoc)
  ultimately show ?case using Cons.IH [of "min m t"] by simp
qed

lemma fold_updWorst_Val: "fold updWorst ts (Val m) = Val (Max (insert m (set ts)))"
proof (induction ts arbitrary: m)
  case Nil
  then show ?case by simp
next
  case (Cons t ts)
  have "updWorst t (Val m) = Val (max m t)" by (simp add: updWorst_def max_def)
  moreover have "Max (insert (max m t) (set ts)) = Max (insert m (insert t (set ts)))"
    by (cases "set ts = {}") (simp_all add: max.assoc)
  ultimately show ?case using Cons.IH [of "max m t"] by simp
qed

lemma fold_updBest_Null:
  "fold updBest ts Null = (if ts = [] then Null else Val (Min (set ts)))"
  by (cases ts) (simp_all add: updBest_def fold_updBest_Val)

lemma fold_updWorst_Null:
  "fold updWorst ts Null = (if ts = [] then Null else Val (Max (set ts)))"
  by (cases ts) (simp_all add: updWorst_def fold_updWorst_Val)


lemma startup_window: "startup f u now = Some s \<Longrightarrow> reactionTimes s = []"
  by (auto simp: startup_def Let_def split: if_splits dest!: nextRound_frame)

lemma rolling_avg_example: "getRollingAvg [200, 300, 400, 500] = ''350.0''"
  by code_simp

lemma five_rounds_run: "run five_rounds (fresh_game 0) \<noteq> None"
  by code_simp

lemma five_rounds_times:
  "correct_times (scored_presses five_rounds (fresh_game 0)) = [100, 200, 300, 400, 500]"
  by code_simp


lemma Min_le_Max_list: "ts \<noteq> [] \<Longrightarrow> Min (set ts) \<le> (Max (set ts) :: int)"
  by (simp add: Min_le_iff)

lemma three_rounds_run: "run three_rounds (fresh_game 0) \<noteq> None"
  by code_simp

lemma three_rounds_times:
  "correct_times_of ''q'' (scored_presses three_rounds (fresh_game 0)) = [120, 80, 200]"
  by code_simp

text \<open>
  C6. After start-up and any run of events, the rolling window holds at most 4 entries,
  and they are the reaction times of the last correct presses of the run, oldest first:
  the list of all correct reaction times with all but its last four dropped. When the
  correct presses had the times 100, 200, 300, 400, 500, the window is 200, 300, 400,
  500 and \<^verbatim>\<open>getRollingAvg()\<close> returns \<^verbatim>\<open>350.0\<close>.
\<close>

theorem rolling_window_last_four:
  "startup f u now = Some s0 \<Longrightarrow> run evs s0 = Some s \<Longrightarrow>
     length (reactionTimes s) \<le> 4
     \<and> reactionTimes s = drop (length (correct_times (scored_presses evs s0)) - 4)
                              (correct_times (scored_presses evs s0))
     \<and> (correct_times (scored_presses evs s0) = [100, 200, 300, 400, 500] \<longrightarrow>
          reactionTimes s = [200, 300, 400, 500]
          \<and> getRollingAvg (reactionTimes s) = ''350.0'')"
proof -
  assume st: "startup f u now = Some s0" and r: "run evs s0 = Some s"
  let ?ts = "correct_times (scored_presses evs s0)"
  have e: "reactionTimes s0 = []" using st by (rule startup_window)
  from run_effect [OF r] have "reactionTimes s = fold pushTime ?ts []" by (simp add: e)
  with fold_pushTime [of "[]" ?ts]
  have w: "reactionTimes s = drop (length ?ts - 4) ?ts" and l: "length (reactionTimes s) \<le> 4"
    by simp_all
  have "reactionTimes s = [200, 300, 400, 500] \<and> getRollingAvg (reactionTimes s) = ''350.0''"
    if "?ts = [100, 200, 300, 400, 500]"
  proof -
    from w that have "reactionTimes s = [200, 300, 400, 500]" by simp
    then show ?thesis by (simp add: rolling_avg_example)
  qed
  with w l show ?thesis by blast
qed

theorem rolling_window_last_four_witness:
  "startup Missing 0 0 = Some (fresh_game 0)
   \<and> (\<exists>s. run five_rounds (fresh_game 0) = Some s
          \<and> correct_times (scored_presses five_rounds (fresh_game 0)) = [100, 200, 300, 400, 500]
          \<and> reactionTimes s = [200, 300, 400, 500]
          \<and> getRollingAvg (reactionTimes s) = ''350.0'')"
proof -
  from five_rounds_run obtain s where s: "run five_rounds (fresh_game 0) = Some s" by blast
  from rolling_window_last_four [OF startup_Missing s] five_rounds_times
  have "reactionTimes s = [200, 300, 400, 500] \<and> getRollingAvg (reactionTimes s) = ''350.0''"
    by blast
  with s five_rounds_times startup_Missing show ?thesis by blast
qed

text \<open>
  C7. Take a key whose record has neither a best nor a worst time yet (both
  \<^verbatim>\<open>null\<close>). After any run of events, both are still \<^verbatim>\<open>null\<close> when the run had no
  correct press of that key, and otherwise the best time is the minimum and the worst
  time the maximum of the reaction times of the correct presses of that key; so the
  best time is at most the worst time whenever both are numbers. Correct presses of
  120, 80 and 200 ms give the best time 80 and the worst time 200.
\<close>

theorem best_worst_min_max:
  "run evs s = Some s' \<Longrightarrow> perKey (stats s) key = Some ks \<Longrightarrow>
   bestTime ks = Null \<Longrightarrow> worstTime ks = Null \<Longrightarrow>
     \<exists>ks'. perKey (stats s') key = Some ks'
       \<and> (correct_times_of key (scored_presses evs s) = [] \<longrightarrow>
            bestTime ks' = Null \<and> worstTime ks' = Null)
       \<and> (correct_times_of key (scored_presses evs s) \<noteq> [] \<longrightarrow>
            bestTime ks' = Val (Min (set (correct_times_of key (scored_presses evs s))))
            \<and> worstTime ks' = Val (Max (set (correct_times_of key (scored_presses evs s)))))
       \<and> (\<forall>b w. bestTime ks' = Val b \<and> worstTime ks' = Val w \<longrightarrow> b \<le> w)
       \<and> (correct_times_of key (scored_presses evs s) = [120, 80, 200] \<longrightarrow>
            bestTime ks' = Val 80 \<and> worstTime ks' = Val 200)"
proof -
  assume r: "run evs s = Some s'" and k: "perKey (stats s) key = Some ks"
    and b: "bestTime ks = Null" and w: "worstTime ks = Null"
  let ?ts = "correct_times_of key (scored_presses evs s)"
  from run_effect [OF r] k obtain ks' where ks': "perKey (stats s') key = Some ks'"
    "bestTime ks' = fold updBest ?ts (bestTime ks)"
    "worstTime ks' = fold updWorst ?ts (worstTime ks)" by blast
  have bw: "bestTime ks' = (if ?ts = [] then Null else Val (Min (set ?ts)))"
    "worstTime ks' = (if ?ts = [] then Null else Val (Max (set ?ts)))"
    using ks'(2,3) b w by (simp_all only: fold_updBest_Null fold_updWorst_Null)
  have le: "\<forall>b w. bestTime ks' = Val b \<and> worstTime ks' = Val w \<longrightarrow> b \<le> w"
    using bw Min_le_Max_list [of ?ts] by (cases "?ts = []") simp_all
  have ex: "bestTime ks' = Val 80 \<and> worstTime ks' = Val 200" if "?ts = [120, 80, 200]"
    using bw unfolding that by simp
  from ks'(1) bw le ex show ?thesis by (intro exI [of _ ks']) simp
qed

theorem best_worst_min_max_witness:
  "perKey (stats (fresh_game 0)) ''q'' = Some fresh_stat
   \<and> bestTime fresh_stat = Null \<and> worstTime fresh_stat = Null
   \<and> correct_times_of ''q'' (scored_presses three_rounds (fresh_game 0)) = [120, 80, 200]
   \<and> (\<exists>s' ks'. run three_rounds (fresh_game 0) = Some s' \<and> perKey (stats s') ''q'' = Some ks'
          \<and> bestTime ks' = Val 80 \<and> worstTime ks' = Val 200)"
proof -
  from three_rounds_run obtain s' where s': "run three_rounds (fresh_game 0) = Some s'" by blast
  have p: "perKey (stats (fresh_game 0)) ''q'' = Some fresh_stat"
    by (simp add: fresh_game_def perKey_load_Missing keys_def)
  have b: "bestTime fresh_stat = Null" and w: "worstTime fresh_stat = Null"
    by (simp_all add: fresh_stat_def)
  from best_worst_min_max [OF s' p b w] three_rounds_times
  obtain ks' where "perKey (stats s') ''q'' = Some ks'" "bestTime ks' = Val 80"
    "worstTime ks' = Val 200" by blast
  with s' p b w three_rounds_times show ?thesis by blast
qed

subsection \<open>Truncating styled lines\<close>




















end
